theory Spec2Isabelle
  imports Main
begin

section \<open>Configuration constants of main.py\<close>

definition DEFAULT_CAPACITY :: int where
  "DEFAULT_CAPACITY = 15"

definition WAITLIST_CAPACITY :: int where
  "WAITLIST_CAPACITY = 5"

definition VIP_NAMES :: "string list" where
  "VIP_NAMES = [''Albert'', ''Ah Soon'']"

section \<open>Data model\<close>

text \<open>
  \<open>now_iso()\<close> reads the clock; the model takes the string it returns as an argument of
  every handler.
\<close>

type_synonym timestamp = string

text \<open>
  A row of \<open>players\<close> or \<open>waitlist\<close>: the dict \<open>{user_id, name, joined_at, is_vip}\<close>.
  \<open>user_id\<close> is a Telegram user id (an unbounded Python int) or \<open>None\<close>.
\<close>

record row =
  user_id :: "int option"
  name :: string
  joined_at :: timestamp
  is_vip :: bool

text \<open>The dict stored under \<open>chat_data["event"]\<close>.\<close>

record event =
  title :: "string option"
  capacity :: int
  locked :: bool
  players :: "row list"
  waitlist :: "row list"
  created_at :: timestamp

text \<open>
  \<open>chat_data\<close> is a dict of which the program only uses the key \<open>"event"\<close>: \<open>None\<close> is
  the dict without that key, \<open>Some e\<close> the dict holding the event \<open>e\<close>.
\<close>

type_synonym chat_data = "event option"

text \<open>
  What a handler sends back. Each constructor is one of the message texts of main.py,
  with the numbers the text interpolates.
\<close>

datatype reply =
    Only_admins_newgame          \<comment> \<open>"Only admins can start a new game."\<close>
  | Only_admins_lock             \<comment> \<open>"Only admins can lock the list."\<close>
  | Only_admins_unlock           \<comment> \<open>"Only admins can unlock the list."\<close>
  | Only_admins_reset            \<comment> \<open>"Only admins can reset."\<close>
  | Created_new_game string int  \<comment> \<open>"Created new game: {title} Capacity: {capacity} ..."\<close>
  | Signups_locked_msg           \<comment> \<open>"Sign-ups locked."\<close>
  | Signups_unlocked_msg         \<comment> \<open>"Sign-ups unlocked."\<close>
  | Event_reset                  \<comment> \<open>"Event reset."\<close>
  | Signups_are_locked           \<comment> \<open>"Sign-ups are locked."\<close>
  | Already_in_list int          \<comment> \<open>"You're already in the list at #{i+1}."\<close>
  | Already_on_waitlist int      \<comment> \<open>"You're already on the waitlist at WL#{j+1}."\<close>
  | Joined int                   \<comment> \<open>"Joined! You are #{len(players)}."\<close>
  | List_full_waitlisted int     \<comment> \<open>"List is full. You are WL#{len(waitlist)}."\<close>
  | List_and_waitlist_full       \<comment> \<open>"List and waitlist are full. Sorry!"\<close>
  | Left_confirmed "row option"  \<comment> \<open>outcome LEFT_CONFIRMED, with the promoted entry if any\<close>
  | Left_waitlist                \<comment> \<open>outcome LEFT_WAITLIST\<close>
  | Not_found                    \<comment> \<open>refusal NOT_FOUND\<close>
  | Roster_shown                 \<comment> \<open>the replies of /start and /list\<close>

section \<open>Utilities\<close>

text \<open>The dict literal of \<open>ensure_event\<close>.\<close>

definition default_event :: "timestamp \<Rightarrow> event" where
  "default_event now =
     \<lparr>title = None, capacity = DEFAULT_CAPACITY, locked = False,
      players = [], waitlist = [], created_at = now\<rparr>"

text \<open>
  \<open>ensure_event\<close> stores the default event when there is none and returns
  \<open>chat_data["event"]\<close>; the callers below store the event they got back.
\<close>

definition ensure_event :: "timestamp \<Rightarrow> chat_data \<Rightarrow> event" where
  "ensure_event now cd = (case cd of None \<Rightarrow> default_event now | Some e \<Rightarrow> e)"

text \<open>\<open>find_user\<close>: the loop over \<open>enumerate(lst)\<close>, \<open>i\<close> the running index.\<close>

fun find_user_from :: "int \<Rightarrow> row list \<Rightarrow> int \<Rightarrow> int" where
  "find_user_from i [] uid = - 1"
| "find_user_from i (r # rs) uid =
     (if user_id r = Some uid then i else find_user_from (i + 1) rs uid)"

definition find_user :: "row list \<Rightarrow> int \<Rightarrow> int" where
  "find_user lst uid = find_user_from 0 lst uid"

text \<open>
  \<open>vip_rows\<close>: the loop over the names, \<open>rows\<close> the list built so far. The list of names
  is an argument; main.py uses \<open>VIP_NAMES\<close>.
\<close>

fun vip_rows_loop :: "timestamp \<Rightarrow> int \<Rightarrow> string list \<Rightarrow> row list \<Rightarrow> row list" where
  "vip_rows_loop now cap [] rows = rows"
| "vip_rows_loop now cap (nm # nms) rows =
     (if int (length rows) \<ge> cap then rows
      else vip_rows_loop now cap nms
             (rows @ [\<lparr>user_id = None, name = nm, joined_at = now, is_vip = True\<rparr>]))"

definition vip_rows_of :: "string list \<Rightarrow> timestamp \<Rightarrow> int \<Rightarrow> row list" where
  "vip_rows_of names now cap = vip_rows_loop now cap names []"

definition vip_rows :: "timestamp \<Rightarrow> int \<Rightarrow> row list" where
  "vip_rows now cap = vip_rows_of VIP_NAMES now cap"

text \<open>The Python slice \<open>xs[:k]\<close>: a negative \<open>k\<close> counts from the end.\<close>

definition slice_to :: "int \<Rightarrow> 'a list \<Rightarrow> 'a list" where
  "slice_to k xs =
     (if 0 \<le> k then take (nat k) xs else take (nat (int (length xs) + k)) xs)"

section \<open>Command handlers\<close>

text \<open>
  Every handler takes the clock reading, the result of \<open>user_is_admin\<close> where it asks for
  it, and \<open>chat_data\<close>, and returns the new \<open>chat_data\<close> with the reply.

  \<open>newgame\<close> takes two more arguments for library calls: \<open>int_py\<close> is Python's \<open>int()\<close>
  on a token (\<open>None\<close> when it raises) and \<open>fmt_title\<close> is the title made of the remaining
  tokens (join, strip, and the date parser's reformatting).
\<close>

definition newgame_of ::
  "string list \<Rightarrow> (string \<Rightarrow> int option) \<Rightarrow> (string list \<Rightarrow> string) \<Rightarrow>
   timestamp \<Rightarrow> bool \<Rightarrow> string list \<Rightarrow> chat_data \<Rightarrow> chat_data \<times> reply" where
  "newgame_of names int_py fmt_title now admin args cd =
     (if \<not> admin then (cd, Only_admins_newgame)
      else
        let ev = ensure_event now cd;
            capacity0 = capacity ev;
            title0 = (case title ev of None \<Rightarrow> ''Next Game''
                      | Some t \<Rightarrow> if t = [] then ''Next Game'' else t);
            (capacity1, args1) =
              (if args \<noteq> [] then
                 (case int_py (last args) of
                    Some maybe_cap \<Rightarrow> (maybe_cap, butlast args)
                  | None \<Rightarrow> (capacity0, args))
               else (capacity0, args));
            title1 = (if args \<noteq> [] \<and> args1 \<noteq> [] then fmt_title args1 else title0);
            seeded = vip_rows_of names now (max 1 capacity1)
        in (Some \<lparr>title = Some title1, capacity = max 1 capacity1, locked = False,
                   players = slice_to capacity1 seeded, waitlist = [],
                   created_at = now\<rparr>,
            Created_new_game title1 capacity1))"

definition newgame ::
  "(string \<Rightarrow> int option) \<Rightarrow> (string list \<Rightarrow> string) \<Rightarrow>
   timestamp \<Rightarrow> bool \<Rightarrow> string list \<Rightarrow> chat_data \<Rightarrow> chat_data \<times> reply" where
  "newgame = newgame_of VIP_NAMES"

definition start :: "timestamp \<Rightarrow> chat_data \<Rightarrow> chat_data \<times> reply" where
  "start now cd = (Some (ensure_event now cd), Roster_shown)"

definition list_cmd :: "timestamp \<Rightarrow> chat_data \<Rightarrow> chat_data \<times> reply" where
  "list_cmd now cd = (Some (ensure_event now cd), Roster_shown)"

definition lock_cmd :: "timestamp \<Rightarrow> bool \<Rightarrow> chat_data \<Rightarrow> chat_data \<times> reply" where
  "lock_cmd now admin cd =
     (if \<not> admin then (cd, Only_admins_lock)
      else (Some ((ensure_event now cd)\<lparr>locked := True\<rparr>), Signups_locked_msg))"

definition unlock_cmd :: "timestamp \<Rightarrow> bool \<Rightarrow> chat_data \<Rightarrow> chat_data \<times> reply" where
  "unlock_cmd now admin cd =
     (if \<not> admin then (cd, Only_admins_unlock)
      else (Some ((ensure_event now cd)\<lparr>locked := False\<rparr>), Signups_unlocked_msg))"

text \<open>\<open>reset_cmd\<close> pops the key \<open>"event"\<close> and calls \<open>ensure_event\<close> on what is left.\<close>

definition reset_cmd :: "timestamp \<Rightarrow> bool \<Rightarrow> chat_data \<Rightarrow> chat_data \<times> reply" where
  "reset_cmd now admin cd =
     (if \<not> admin then (cd, Only_admins_reset)
      else (Some (ensure_event now None), Event_reset))"

section \<open>Core join logic\<close>

definition handle_join ::
  "timestamp \<Rightarrow> int \<Rightarrow> string \<Rightarrow> chat_data \<Rightarrow> chat_data \<times> reply" where
  "handle_join now uid display_name cd =
     (let ev = ensure_event now cd in
      if locked ev then (Some ev, Signups_are_locked)
      else
        let i = find_user (players ev) uid in
        if i \<noteq> - 1 then (Some ev, Already_in_list (i + 1))
        else
          let j = find_user (waitlist ev) uid in
          if j \<noteq> - 1 then (Some ev, Already_on_waitlist (j + 1))
          else
            let cap = capacity ev;
                entry = \<lparr>user_id = Some uid, name = display_name,
                         joined_at = now, is_vip = False\<rparr>
            in
            if int (length (players ev)) < cap then
              let ev' = ev\<lparr>players := players ev @ [entry]\<rparr>
              in (Some ev', Joined (int (length (players ev'))))
            else if int (length (waitlist ev)) \<ge> WAITLIST_CAPACITY then
              (Some ev, List_and_waitlist_full)
            else
              let ev' = ev\<lparr>waitlist := waitlist ev @ [entry]\<rparr>
              in (Some ev', List_full_waitlisted (int (length (waitlist ev')))))"

section \<open>Leave\<close>

text \<open>\<open>del xs[k]\<close> for an index \<open>k\<close> inside the list.\<close>

definition remove_at :: "nat \<Rightarrow> 'a list \<Rightarrow> 'a list" where
  "remove_at k xs = take k xs @ drop (Suc k) xs"

text \<open>
  Modelled from the spec: \<open>handle_leave\<close>, which \<open>leave_cmd\<close> and \<open>on_button\<close> call but
  main.py does not define. The spec's \<open>leave(roster, actor)\<close>: search \<open>confirmed\<close> by
  identifier; if found, remove that entry and, when the waitlist is non-empty, remove the
  waitlist's first entry and append it to the end of \<open>confirmed\<close> (outcome LEFT_CONFIRMED
  with the promoted entry, if any); else search \<open>waitlist\<close>; if found, remove it (outcome
  LEFT_WAITLIST); else refusal NOT_FOUND. Like every handler of main.py it starts from
  \<open>ensure_event\<close> and searches with \<open>find_user\<close>; it does not look at \<open>locked\<close>.
\<close>

definition handle_leave :: "timestamp \<Rightarrow> int \<Rightarrow> chat_data \<Rightarrow> chat_data \<times> reply" where
  "handle_leave now uid cd =
     (let ev = ensure_event now cd;
          i = find_user (players ev) uid
      in
      if i \<noteq> - 1 then
        let confirmed = remove_at (nat i) (players ev) in
        (case waitlist ev of
           [] \<Rightarrow> (Some (ev\<lparr>players := confirmed\<rparr>), Left_confirmed None)
         | w # ws \<Rightarrow>
             (Some (ev\<lparr>players := confirmed @ [w], waitlist := ws\<rparr>),
              Left_confirmed (Some w)))
      else
        let j = find_user (waitlist ev) uid in
        if j \<noteq> - 1 then
          (Some (ev\<lparr>waitlist := remove_at (nat j) (waitlist ev)\<rparr>), Left_waitlist)
        else (Some ev, Not_found))"

section \<open>Sequences of requests\<close>

text \<open>
  The requests the application registers handlers for, with what the handler reads from
  the update: the admin check's result, the command arguments, the user's id and name.
\<close>

datatype request =
    Req_start
  | Req_newgame bool "string list"
  | Req_join int string
  | Req_leave int
  | Req_list
  | Req_lock bool
  | Req_unlock bool
  | Req_reset bool

fun step ::
  "string list \<Rightarrow> (string \<Rightarrow> int option) \<Rightarrow> (string list \<Rightarrow> string) \<Rightarrow>
   chat_data \<Rightarrow> timestamp \<times> request \<Rightarrow> chat_data" where
  "step names int_py fmt_title cd (now, Req_start) = fst (start now cd)"
| "step names int_py fmt_title cd (now, Req_newgame admin args) =
     fst (newgame_of names int_py fmt_title now admin args cd)"
| "step names int_py fmt_title cd (now, Req_join uid nm) = fst (handle_join now uid nm cd)"
| "step names int_py fmt_title cd (now, Req_leave uid) = fst (handle_leave now uid cd)"
| "step names int_py fmt_title cd (now, Req_list) = fst (list_cmd now cd)"
| "step names int_py fmt_title cd (now, Req_lock admin) = fst (lock_cmd now admin cd)"
| "step names int_py fmt_title cd (now, Req_unlock admin) = fst (unlock_cmd now admin cd)"
| "step names int_py fmt_title cd (now, Req_reset admin) = fst (reset_cmd now admin cd)"

text \<open>The state a chat reaches from the empty \<open>chat_data\<close> by a list of timed requests.\<close>

definition run ::
  "string list \<Rightarrow> (string \<Rightarrow> int option) \<Rightarrow> (string list \<Rightarrow> string) \<Rightarrow>
   (timestamp \<times> request) list \<Rightarrow> chat_data" where
  "run names int_py fmt_title reqs = foldl (step names int_py fmt_title) None reqs"

text \<open>The two length bounds of an event.\<close>

definition within_capacity :: "event \<Rightarrow> bool" where
  "within_capacity ev \<longleftrightarrow>
     int (length (players ev)) \<le> capacity ev
     \<and> int (length (waitlist ev)) \<le> WAITLIST_CAPACITY"

text \<open>The identifiers of a list of rows, in order: the \<open>user_id\<close>s that are not \<open>None\<close>.\<close>

fun idents :: "row list \<Rightarrow> int list" where
  "idents [] = []"
| "idents (r # rs) = (case user_id r of None \<Rightarrow> idents rs | Some u \<Rightarrow> u # idents rs)"

section \<open>Example rosters\<close>

definition guest :: "int \<Rightarrow> row" where
  "guest u = \<lparr>user_id = Some u, name = ''G'', joined_at = ''t0'', is_vip = False\<rparr>"

definition roster_of :: "int \<Rightarrow> bool \<Rightarrow> row list \<Rightarrow> row list \<Rightarrow> chat_data" where
  "roster_of cap lk ps ws =
     Some \<lparr>title = None, capacity = cap, locked = lk, players = ps, waitlist = ws,
           created_at = ''t0''\<rparr>"

text \<open>
  For the examples of \<open>/newgame\<close>: Python's \<open>int()\<close> on the tokens the examples use (any
  other token counts as not a number), and a title that is the tokens joined by spaces.
\<close>

definition int_py_ex :: "string \<Rightarrow> int option" where
  "int_py_ex s =
     (if s = ''0'' then Some 0
      else if s = ''-1'' then Some (- 1)
      else if s = ''3'' then Some 3
      else None)"

fun fmt_title_ex :: "string list \<Rightarrow> string" where
  "fmt_title_ex [] = []"
| "fmt_title_ex [a] = a"
| "fmt_title_ex (a # b # rest) = a @ '' '' @ fmt_title_ex (b # rest)"

section \<open>What \<open>find_user\<close> returns\<close>

lemma find_user_from_cases:
  "0 \<le> i \<Longrightarrow>
   (Some uid \<notin> user_id ` set lst \<and> find_user_from i lst uid = - 1)
   \<or> (\<exists>k. k < length lst \<and> user_id (lst ! k) = Some uid
          \<and> (\<forall>j<k. user_id (lst ! j) \<noteq> Some uid)
          \<and> find_user_from i lst uid = i + int k)"
proof (induction lst arbitrary: i)
  case Nil
  then show ?case by simp
next
  case (Cons r rs)
  show ?case
  proof (cases "user_id r = Some uid")
    case True
    then have "0 < length (r # rs) \<and> user_id ((r # rs) ! 0) = Some uid
        \<and> (\<forall>j<0. user_id ((r # rs) ! j) \<noteq> Some uid)
        \<and> find_user_from i (r # rs) uid = i + int 0"
      by simp
    then show ?thesis by blast
  next
    case False
    from Cons.prems have "0 \<le> i + 1" by simp
    from Cons.IH [OF this] show ?thesis
    proof
      assume "Some uid \<notin> user_id ` set rs \<and> find_user_from (i + 1) rs uid = - 1"
      with False show ?thesis by auto
    next
      assume "\<exists>k. k < length rs \<and> user_id (rs ! k) = Some uid
          \<and> (\<forall>j<k. user_id (rs ! j) \<noteq> Some uid)
          \<and> find_user_from (i + 1) rs uid = i + 1 + int k"
      then obtain k where k: "k < length rs" "user_id (rs ! k) = Some uid"
          "\<forall>j<k. user_id (rs ! j) \<noteq> Some uid"
          "find_user_from (i + 1) rs uid = i + 1 + int k"
        by blast
      have "\<forall>j<Suc k. user_id ((r # rs) ! j) \<noteq> Some uid"
      proof (intro allI impI)
        fix j assume "j < Suc k"
        with False k(3) show "user_id ((r # rs) ! j) \<noteq> Some uid"
          by (cases j) auto
      qed
      with k False have "Suc k < length (r # rs) \<and> user_id ((r # rs) ! Suc k) = Some uid
          \<and> (\<forall>j<Suc k. user_id ((r # rs) ! j) \<noteq> Some uid)
          \<and> find_user_from i (r # rs) uid = i + int (Suc k)"
        by simp
      then show ?thesis by blast
    qed
  qed
qed

lemma find_user_absent:
  "Some uid \<notin> user_id ` set lst \<Longrightarrow> find_user lst uid = - 1"
proof -
  assume a: "Some uid \<notin> user_id ` set lst"
  have "\<not> (\<exists>k. k < length lst \<and> user_id (lst ! k) = Some uid)"
  proof
    assume "\<exists>k. k < length lst \<and> user_id (lst ! k) = Some uid"
    then obtain k where "k < length lst" "user_id (lst ! k) = Some uid" by blast
    then have "Some uid \<in> user_id ` set lst"
      by (metis imageI nth_mem)
    with a show False by simp
  qed
  with find_user_from_cases [of 0 uid lst] show ?thesis
    by (auto simp: find_user_def)
qed

lemma find_user_present:
  "Some uid \<in> user_id ` set lst \<Longrightarrow>
   \<exists>k. k < length lst \<and> user_id (lst ! k) = Some uid
       \<and> (\<forall>j<k. user_id (lst ! j) \<noteq> Some uid)
       \<and> find_user lst uid = int k"
  using find_user_from_cases [of 0 uid lst]
  by (auto simp: find_user_def)

lemma find_user_minus_one_iff:
  "find_user lst uid = - 1 \<longleftrightarrow> Some uid \<notin> user_id ` set lst"
  using find_user_absent [of uid lst] find_user_present [of uid lst]
  by auto

section \<open>Join\<close>

text \<open>
  C1. \<open>handle_join\<close> on the event \<open>ev\<close> that \<open>ensure_event\<close> returns, for the actor
  \<open>uid\<close> with the new entry \<open>entry\<close>, takes the first of these branches that applies:
  \<^enum> \<open>ev\<close> is locked: refusal "Sign-ups are locked.";
  \<^enum> \<open>uid\<close> is the identifier of a row of \<open>players\<close>: refusal "already in the list",
    carrying the 1-based position of the first such row;
  \<^enum> \<open>uid\<close> is the identifier of a row of \<open>waitlist\<close>: refusal "already on the waitlist",
    carrying the 1-based position of the first such row;
  \<^enum> \<open>len(players) < capacity\<close>: \<open>entry\<close> (with \<open>is_vip = False\<close>) is appended to
    \<open>players\<close>, reply "Joined" with the new length;
  \<^enum> \<open>len(waitlist) < WAITLIST_CAPACITY\<close>: \<open>entry\<close> is appended to \<open>waitlist\<close>, reply
    "List is full. You are WL#" with the new length;
  \<^enum> otherwise: refusal "List and waitlist are full".
  Every refusal returns \<open>chat_data\<close> exactly as it was.
\<close>

theorem handle_join_branches:
  assumes "ev = ensure_event now cd"
    and "entry = \<lparr>user_id = Some uid, name = nm, joined_at = now, is_vip = False\<rparr>"
  shows
    "(locked ev \<longrightarrow> handle_join now uid nm cd = (cd, Signups_are_locked))
   \<and> (\<not> locked ev \<and> Some uid \<in> user_id ` set (players ev) \<longrightarrow>
        (\<exists>i. i < length (players ev) \<and> user_id (players ev ! i) = Some uid
           \<and> (\<forall>j<i. user_id (players ev ! j) \<noteq> Some uid)
           \<and> handle_join now uid nm cd = (cd, Already_in_list (int i + 1))))
   \<and> (\<not> locked ev \<and> Some uid \<notin> user_id ` set (players ev)
        \<and> Some uid \<in> user_id ` set (waitlist ev) \<longrightarrow>
        (\<exists>i. i < length (waitlist ev) \<and> user_id (waitlist ev ! i) = Some uid
           \<and> (\<forall>j<i. user_id (waitlist ev ! j) \<noteq> Some uid)
           \<and> handle_join now uid nm cd = (cd, Already_on_waitlist (int i + 1))))
   \<and> (\<not> locked ev \<and> Some uid \<notin> user_id ` set (players ev)
        \<and> Some uid \<notin> user_id ` set (waitlist ev)
        \<and> int (length (players ev)) < capacity ev \<longrightarrow>
        handle_join now uid nm cd =
          (Some (ev\<lparr>players := players ev @ [entry]\<rparr>),
           Joined (int (length (players ev)) + 1)))
   \<and> (\<not> locked ev \<and> Some uid \<notin> user_id ` set (players ev)
        \<and> Some uid \<notin> user_id ` set (waitlist ev)
        \<and> \<not> int (length (players ev)) < capacity ev
        \<and> int (length (waitlist ev)) < WAITLIST_CAPACITY \<longrightarrow>
        handle_join now uid nm cd =
          (Some (ev\<lparr>waitlist := waitlist ev @ [entry]\<rparr>),
           List_full_waitlisted (int (length (waitlist ev)) + 1)))
   \<and> (\<not> locked ev \<and> Some uid \<notin> user_id ` set (players ev)
        \<and> Some uid \<notin> user_id ` set (waitlist ev)
        \<and> \<not> int (length (players ev)) < capacity ev
        \<and> \<not> int (length (waitlist ev)) < WAITLIST_CAPACITY \<longrightarrow>
        handle_join now uid nm cd = (cd, List_and_waitlist_full))"
proof (intro conjI impI)
  assume "locked ev"
  with assms(1) have "cd = Some ev"
    by (cases cd) (simp_all add: ensure_event_def default_event_def)
  with \<open>locked ev\<close> show "handle_join now uid nm cd = (cd, Signups_are_locked)"
    by (simp add: handle_join_def ensure_event_def)
next
  assume a: "\<not> locked ev \<and> Some uid \<in> user_id ` set (players ev)"
  with assms(1) have cd: "cd = Some ev"
    by (cases cd) (auto simp: ensure_event_def default_event_def)
  from a find_user_present [of uid "players ev"]
  obtain k where k: "k < length (players ev)" "user_id (players ev ! k) = Some uid"
      "\<forall>j<k. user_id (players ev ! j) \<noteq> Some uid" "find_user (players ev) uid = int k"
    by blast
  from a cd k(4) have "handle_join now uid nm cd = (cd, Already_in_list (int k + 1))"
    by (simp add: handle_join_def ensure_event_def)
  with k show "\<exists>i. i < length (players ev) \<and> user_id (players ev ! i) = Some uid
           \<and> (\<forall>j<i. user_id (players ev ! j) \<noteq> Some uid)
           \<and> handle_join now uid nm cd = (cd, Already_in_list (int i + 1))"
    by blast
next
  assume a: "\<not> locked ev \<and> Some uid \<notin> user_id ` set (players ev)
        \<and> Some uid \<in> user_id ` set (waitlist ev)"
  with assms(1) have cd: "cd = Some ev"
    by (cases cd) (auto simp: ensure_event_def default_event_def)
  from a have p: "find_user (players ev) uid = - 1"
    by (simp add: find_user_absent)
  from a find_user_present [of uid "waitlist ev"]
  obtain k where k: "k < length (waitlist ev)" "user_id (waitlist ev ! k) = Some uid"
      "\<forall>j<k. user_id (waitlist ev ! j) \<noteq> Some uid" "find_user (waitlist ev) uid = int k"
    by blast
  from a cd p k(4) have "handle_join now uid nm cd = (cd, Already_on_waitlist (int k + 1))"
    by (simp add: handle_join_def ensure_event_def)
  with k show "\<exists>i. i < length (waitlist ev) \<and> user_id (waitlist ev ! i) = Some uid
           \<and> (\<forall>j<i. user_id (waitlist ev ! j) \<noteq> Some uid)
           \<and> handle_join now uid nm cd = (cd, Already_on_waitlist (int i + 1))"
    by blast
next
  assume a: "\<not> locked ev \<and> Some uid \<notin> user_id ` set (players ev)
        \<and> Some uid \<notin> user_id ` set (waitlist ev)
        \<and> int (length (players ev)) < capacity ev"
  then have "find_user (players ev) uid = - 1" "find_user (waitlist ev) uid = - 1"
    by (simp_all add: find_user_absent)
  with a assms show "handle_join now uid nm cd =
          (Some (ev\<lparr>players := players ev @ [entry]\<rparr>),
           Joined (int (length (players ev)) + 1))"
    by (simp add: handle_join_def Let_def)
next
  assume a: "\<not> locked ev \<and> Some uid \<notin> user_id ` set (players ev)
        \<and> Some uid \<notin> user_id ` set (waitlist ev)
        \<and> \<not> int (length (players ev)) < capacity ev
        \<and> int (length (waitlist ev)) < WAITLIST_CAPACITY"
  then have "find_user (players ev) uid = - 1" "find_user (waitlist ev) uid = - 1"
    by (simp_all add: find_user_absent)
  with a assms show "handle_join now uid nm cd =
          (Some (ev\<lparr>waitlist := waitlist ev @ [entry]\<rparr>),
           List_full_waitlisted (int (length (waitlist ev)) + 1))"
    by (simp add: handle_join_def Let_def)
next
  assume a: "\<not> locked ev \<and> Some uid \<notin> user_id ` set (players ev)
        \<and> Some uid \<notin> user_id ` set (waitlist ev)
        \<and> \<not> int (length (players ev)) < capacity ev
        \<and> \<not> int (length (waitlist ev)) < WAITLIST_CAPACITY"
  with assms(1) have cd: "cd = Some ev"
    by (cases cd) (auto simp: ensure_event_def default_event_def DEFAULT_CAPACITY_def)
  from a have "find_user (players ev) uid = - 1" "find_user (waitlist ev) uid = - 1"
    by (simp_all add: find_user_absent)
  with a cd show "handle_join now uid nm cd = (cd, List_and_waitlist_full)"
    by (simp add: handle_join_def ensure_event_def)
qed

theorem handle_join_branches_witness:
  "handle_join ''t1'' 7 ''Ann'' (roster_of 2 True [] [])
     = (roster_of 2 True [] [], Signups_are_locked)
   \<and> handle_join ''t1'' 7 ''Ann'' (roster_of 3 False [guest 4, guest 7] [])
     = (roster_of 3 False [guest 4, guest 7] [], Already_in_list 2)
   \<and> handle_join ''t1'' 7 ''Ann'' (roster_of 1 False [guest 4] [guest 5, guest 7])
     = (roster_of 1 False [guest 4] [guest 5, guest 7], Already_on_waitlist 2)
   \<and> handle_join ''t1'' 7 ''Ann'' (roster_of 2 False [guest 4] [])
     = (roster_of 2 False
          [guest 4, \<lparr>user_id = Some 7, name = ''Ann'', joined_at = ''t1'', is_vip = False\<rparr>] [],
        Joined 2)
   \<and> handle_join ''t1'' 7 ''Ann'' (roster_of 1 False [guest 4] [guest 5])
     = (roster_of 1 False [guest 4]
          [guest 5, \<lparr>user_id = Some 7, name = ''Ann'', joined_at = ''t1'', is_vip = False\<rparr>],
        List_full_waitlisted 2)
   \<and> handle_join ''t1'' 7 ''Ann''
        (roster_of 1 False [guest 4] [guest 1, guest 2, guest 3, guest 5, guest 6])
     = (roster_of 1 False [guest 4] [guest 1, guest 2, guest 3, guest 5, guest 6],
        List_and_waitlist_full)"
proof (intro conjI)
  show "handle_join ''t1'' 7 ''Ann'' (roster_of 2 True [] [])
     = (roster_of 2 True [] [], Signups_are_locked)"
    using handle_join_branches [OF refl refl, of "''t1''" "roster_of 2 True [] []" 7 "''Ann''"]
    by (simp add: roster_of_def ensure_event_def)
next
  show "handle_join ''t1'' 7 ''Ann'' (roster_of 3 False [guest 4, guest 7] [])
     = (roster_of 3 False [guest 4, guest 7] [], Already_in_list 2)"
    using handle_join_branches [OF refl refl, of "''t1''"
        "roster_of 3 False [guest 4, guest 7] []" 7 "''Ann''"]
    by (auto simp add: roster_of_def ensure_event_def guest_def less_Suc_eq numeral_2_eq_2)
next
  show "handle_join ''t1'' 7 ''Ann'' (roster_of 1 False [guest 4] [guest 5, guest 7])
     = (roster_of 1 False [guest 4] [guest 5, guest 7], Already_on_waitlist 2)"
    using handle_join_branches [OF refl refl, of "''t1''"
        "roster_of 1 False [guest 4] [guest 5, guest 7]" 7 "''Ann''"]
    by (auto simp add: roster_of_def ensure_event_def guest_def less_Suc_eq numeral_2_eq_2)
next
  show "handle_join ''t1'' 7 ''Ann'' (roster_of 2 False [guest 4] [])
     = (roster_of 2 False
          [guest 4, \<lparr>user_id = Some 7, name = ''Ann'', joined_at = ''t1'', is_vip = False\<rparr>] [],
        Joined 2)"
    using handle_join_branches [OF refl refl, of "''t1''"
        "roster_of 2 False [guest 4] []" 7 "''Ann''"]
    by (simp add: roster_of_def ensure_event_def guest_def)
next
  show "handle_join ''t1'' 7 ''Ann'' (roster_of 1 False [guest 4] [guest 5])
     = (roster_of 1 False [guest 4]
          [guest 5, \<lparr>user_id = Some 7, name = ''Ann'', joined_at = ''t1'', is_vip = False\<rparr>],
        List_full_waitlisted 2)"
    using handle_join_branches [OF refl refl, of "''t1''"
        "roster_of 1 False [guest 4] [guest 5]" 7 "''Ann''"]
    by (simp add: roster_of_def ensure_event_def guest_def WAITLIST_CAPACITY_def)
next
  show "handle_join ''t1'' 7 ''Ann''
        (roster_of 1 False [guest 4] [guest 1, guest 2, guest 3, guest 5, guest 6])
     = (roster_of 1 False [guest 4] [guest 1, guest 2, guest 3, guest 5, guest 6],
        List_and_waitlist_full)"
    using handle_join_branches [OF refl refl, of "''t1''"
        "roster_of 1 False [guest 4] [guest 1, guest 2, guest 3, guest 5, guest 6]" 7 "''Ann''"]
    by (simp add: roster_of_def ensure_event_def guest_def WAITLIST_CAPACITY_def)
qed

section \<open>Admin gate\<close>

text \<open>
  C7. Each admin-gated handler (\<open>newgame\<close>, \<open>lock_cmd\<close>, \<open>unlock_cmd\<close>, \<open>reset_cmd\<close>),
  called by a user who is not an admin, answers with its "Only admins ..." refusal and
  returns \<open>chat_data\<close> as it was, also when no event exists yet.
\<close>

theorem admin_gate_refuses_unchanged:
  "newgame int_py fmt_title now False args cd = (cd, Only_admins_newgame)
   \<and> lock_cmd now False cd = (cd, Only_admins_lock)
   \<and> unlock_cmd now False cd = (cd, Only_admins_unlock)
   \<and> reset_cmd now False cd = (cd, Only_admins_reset)"
  by (simp add: newgame_def newgame_of_def lock_cmd_def unlock_cmd_def reset_cmd_def)

section \<open>Reset and first access\<close>

text \<open>
  C8. The state after an admin's reset is the state that first access creates when no
  event exists: whatever was stored before, \<open>reset_cmd\<close> leaves exactly the event that
  \<open>start\<close> (or any other handler calling \<open>ensure_event\<close>) creates from the empty
  \<open>chat_data\<close> at the same clock reading, and that event has no title, the default
  capacity, no players, an empty waitlist and is unlocked.
\<close>

theorem reset_equals_first_access:
  "fst (reset_cmd now True cd) = fst (start now None)
   \<and> fst (reset_cmd now True cd) = Some (ensure_event now None)
   \<and> title (ensure_event now None) = None
   \<and> capacity (ensure_event now None) = DEFAULT_CAPACITY
   \<and> players (ensure_event now None) = []
   \<and> waitlist (ensure_event now None) = []
   \<and> locked (ensure_event now None) = False"
  by (simp add: reset_cmd_def start_def ensure_event_def default_event_def)

section \<open>Lock and unlock\<close>

text \<open>
  C9. \<open>lock_cmd\<close> and \<open>unlock_cmd\<close> are idempotent: a second call (at any later clock
  reading) returns the state and the reply of the first, for admins and non-admins, with
  or without an event stored. The reply of the second lock is the ordinary
  "Sign-ups locked." message, not an error.
\<close>

theorem lock_unlock_idempotent:
  "lock_cmd now2 admin (fst (lock_cmd now1 admin cd)) = lock_cmd now1 admin cd
   \<and> unlock_cmd now2 admin (fst (unlock_cmd now1 admin cd)) = unlock_cmd now1 admin cd
   \<and> snd (lock_cmd now2 True (fst (lock_cmd now1 True cd))) = Signups_locked_msg"
  by (simp add: lock_cmd_def unlock_cmd_def ensure_event_def)

section \<open>Leave: removal and promotion\<close>

text \<open>
  C2. \<open>handle_leave\<close> on the event \<open>ev\<close> that \<open>ensure_event\<close> returns:
  \<^item> if \<open>uid\<close> is the identifier of a row of \<open>players\<close>, the first such row (index \<open>i\<close>) is
    removed; when the waitlist is empty nothing else changes and the outcome is
    LEFT_CONFIRMED without promotion; when it is not, its first row is removed from
    the waitlist and appended to the end of \<open>players\<close>, the rest of the waitlist keeps
    its order, and the outcome is LEFT_CONFIRMED carrying the promoted row;
  \<^item> else if \<open>uid\<close> is the identifier of a row of \<open>waitlist\<close>, the first such row is
    removed, \<open>players\<close> is untouched, outcome LEFT_WAITLIST;
  \<^item> else the refusal NOT_FOUND, with the event unchanged;
  \<^item> in particular, with waitlist \<open>[a, b, c]\<close> and a confirmed actor leaving, \<open>a\<close> is
    promoted to the end of \<open>players\<close> and the new waitlist is \<open>[b, c]\<close>.
\<close>

theorem handle_leave_branches:
  assumes "ev = ensure_event now cd"
  shows
    "(Some uid \<in> user_id ` set (players ev) \<longrightarrow>
        (\<exists>i. i < length (players ev) \<and> user_id (players ev ! i) = Some uid
           \<and> (\<forall>j<i. user_id (players ev ! j) \<noteq> Some uid)
           \<and> (waitlist ev = [] \<longrightarrow>
                handle_leave now uid cd =
                  (Some (ev\<lparr>players := remove_at i (players ev)\<rparr>), Left_confirmed None))
           \<and> (waitlist ev \<noteq> [] \<longrightarrow>
                handle_leave now uid cd =
                  (Some (ev\<lparr>players := remove_at i (players ev) @ [hd (waitlist ev)],
                            waitlist := tl (waitlist ev)\<rparr>),
                   Left_confirmed (Some (hd (waitlist ev)))))))
   \<and> (Some uid \<notin> user_id ` set (players ev)
        \<and> Some uid \<in> user_id ` set (waitlist ev) \<longrightarrow>
        (\<exists>i. i < length (waitlist ev) \<and> user_id (waitlist ev ! i) = Some uid
           \<and> (\<forall>j<i. user_id (waitlist ev ! j) \<noteq> Some uid)
           \<and> handle_leave now uid cd =
               (Some (ev\<lparr>waitlist := remove_at i (waitlist ev)\<rparr>), Left_waitlist)))
   \<and> (Some uid \<notin> user_id ` set (players ev)
        \<and> Some uid \<notin> user_id ` set (waitlist ev) \<longrightarrow>
        handle_leave now uid cd = (Some ev, Not_found))
   \<and> (Some uid \<in> user_id ` set (players ev) \<and> waitlist ev = [a, b, c] \<longrightarrow>
        (\<exists>ev'. fst (handle_leave now uid cd) = Some ev'
           \<and> snd (handle_leave now uid cd) = Left_confirmed (Some a)
           \<and> last (players ev') = a \<and> waitlist ev' = [b, c]))"
proof (intro conjI impI)
  assume a: "Some uid \<in> user_id ` set (players ev)"
  from a find_user_present [of uid "players ev"]
  obtain k where k: "k < length (players ev)" "user_id (players ev ! k) = Some uid"
      "\<forall>j<k. user_id (players ev ! j) \<noteq> Some uid" "find_user (players ev) uid = int k"
    by blast
  have e: "waitlist ev = [] \<longrightarrow>
        handle_leave now uid cd =
          (Some (ev\<lparr>players := remove_at k (players ev)\<rparr>), Left_confirmed None)"
    using k(4) assms by (simp add: handle_leave_def Let_def)
  have n: "waitlist ev \<noteq> [] \<longrightarrow>
        handle_leave now uid cd =
          (Some (ev\<lparr>players := remove_at k (players ev) @ [hd (waitlist ev)],
                    waitlist := tl (waitlist ev)\<rparr>),
           Left_confirmed (Some (hd (waitlist ev))))"
    using k(4) assms by (cases "waitlist ev") (simp_all add: handle_leave_def Let_def)
  from k e n show "\<exists>i. i < length (players ev) \<and> user_id (players ev ! i) = Some uid
           \<and> (\<forall>j<i. user_id (players ev ! j) \<noteq> Some uid)
           \<and> (waitlist ev = [] \<longrightarrow>
                handle_leave now uid cd =
                  (Some (ev\<lparr>players := remove_at i (players ev)\<rparr>), Left_confirmed None))
           \<and> (waitlist ev \<noteq> [] \<longrightarrow>
                handle_leave now uid cd =
                  (Some (ev\<lparr>players := remove_at i (players ev) @ [hd (waitlist ev)],
                            waitlist := tl (waitlist ev)\<rparr>),
                   Left_confirmed (Some (hd (waitlist ev)))))"
    by blast
next
  assume a: "Some uid \<notin> user_id ` set (players ev)
        \<and> Some uid \<in> user_id ` set (waitlist ev)"
  then have p: "find_user (players ev) uid = - 1"
    by (simp add: find_user_absent)
  from a find_user_present [of uid "waitlist ev"]
  obtain k where k: "k < length (waitlist ev)" "user_id (waitlist ev ! k) = Some uid"
      "\<forall>j<k. user_id (waitlist ev ! j) \<noteq> Some uid" "find_user (waitlist ev) uid = int k"
    by blast
  from p k(4) assms have "handle_leave now uid cd =
      (Some (ev\<lparr>waitlist := remove_at k (waitlist ev)\<rparr>), Left_waitlist)"
    by (simp add: handle_leave_def Let_def)
  with k show "\<exists>i. i < length (waitlist ev) \<and> user_id (waitlist ev ! i) = Some uid
           \<and> (\<forall>j<i. user_id (waitlist ev ! j) \<noteq> Some uid)
           \<and> handle_leave now uid cd =
               (Some (ev\<lparr>waitlist := remove_at i (waitlist ev)\<rparr>), Left_waitlist)"
    by blast
next
  assume a: "Some uid \<notin> user_id ` set (players ev)
        \<and> Some uid \<notin> user_id ` set (waitlist ev)"
  then have "find_user (players ev) uid = - 1" "find_user (waitlist ev) uid = - 1"
    by (simp_all add: find_user_absent)
  with assms show "handle_leave now uid cd = (Some ev, Not_found)"
    by (simp add: handle_leave_def Let_def)
next
  assume a: "Some uid \<in> user_id ` set (players ev) \<and> waitlist ev = [a, b, c]"
  from a find_user_present [of uid "players ev"]
  obtain k where k: "find_user (players ev) uid = int k"
    by blast
  from a k assms show "\<exists>ev'. fst (handle_leave now uid cd) = Some ev'
           \<and> snd (handle_leave now uid cd) = Left_confirmed (Some a)
           \<and> last (players ev') = a \<and> waitlist ev' = [b, c]"
    by (simp add: handle_leave_def Let_def)
qed

theorem handle_leave_branches_witness:
  "handle_leave ''t1'' 4 (roster_of 2 True [guest 4, guest 9] [guest 1, guest 2, guest 3])
     = (roster_of 2 True [guest 9, guest 1] [guest 2, guest 3],
        Left_confirmed (Some (guest 1)))
   \<and> handle_leave ''t1'' 4 (roster_of 2 False [guest 4, guest 9] [])
     = (roster_of 2 False [guest 9] [], Left_confirmed None)
   \<and> handle_leave ''t1'' 2 (roster_of 2 False [guest 4, guest 9] [guest 1, guest 2, guest 3])
     = (roster_of 2 False [guest 4, guest 9] [guest 1, guest 3], Left_waitlist)
   \<and> handle_leave ''t1'' 8 (roster_of 2 False [guest 4, guest 9] [guest 1])
     = (roster_of 2 False [guest 4, guest 9] [guest 1], Not_found)"
proof (intro conjI)
  show "handle_leave ''t1'' 4 (roster_of 2 True [guest 4, guest 9] [guest 1, guest 2, guest 3])
     = (roster_of 2 True [guest 9, guest 1] [guest 2, guest 3],
        Left_confirmed (Some (guest 1)))"
    using handle_leave_branches [OF refl, of 4 "''t1''"
        "roster_of 2 True [guest 4, guest 9] [guest 1, guest 2, guest 3]"
        "guest 1" "guest 2" "guest 3"]
    by (auto simp add: roster_of_def ensure_event_def guest_def remove_at_def
        less_Suc_eq numeral_2_eq_2)
next
  show "handle_leave ''t1'' 4 (roster_of 2 False [guest 4, guest 9] [])
     = (roster_of 2 False [guest 9] [], Left_confirmed None)"
    using handle_leave_branches [OF refl, of 4 "''t1''"
        "roster_of 2 False [guest 4, guest 9] []" "guest 1" "guest 2" "guest 3"]
    by (auto simp add: roster_of_def ensure_event_def guest_def remove_at_def
        less_Suc_eq numeral_2_eq_2)
next
  show "handle_leave ''t1'' 2 (roster_of 2 False [guest 4, guest 9] [guest 1, guest 2, guest 3])
     = (roster_of 2 False [guest 4, guest 9] [guest 1, guest 3], Left_waitlist)"
    using handle_leave_branches [OF refl, of 2 "''t1''"
        "roster_of 2 False [guest 4, guest 9] [guest 1, guest 2, guest 3]"
        "guest 1" "guest 2" "guest 3"]
    by (auto simp add: roster_of_def ensure_event_def guest_def remove_at_def
        less_Suc_eq numeral_3_eq_3)
next
  show "handle_leave ''t1'' 8 (roster_of 2 False [guest 4, guest 9] [guest 1])
     = (roster_of 2 False [guest 4, guest 9] [guest 1], Not_found)"
    using handle_leave_branches [OF refl, of 8 "''t1''"
        "roster_of 2 False [guest 4, guest 9] [guest 1]" "guest 1" "guest 2" "guest 3"]
    by (simp add: roster_of_def ensure_event_def guest_def)
qed

section \<open>What \<open>vip_rows\<close> and the slice return\<close>

lemma vip_rows_loop_eq:
  "vip_rows_loop now cap names rows =
     rows @ map (\<lambda>nm. \<lparr>user_id = None, name = nm, joined_at = now, is_vip = True\<rparr>)
              (take (nat (cap - int (length rows))) names)"
proof (induction names arbitrary: rows)
  case Nil
  show ?case by simp
next
  case (Cons nm nms)
  show ?case
  proof (cases "cap \<le> int (length rows)")
    case True
    then show ?thesis by simp
  next
    case False
    then have "nat (cap - int (length rows)) = Suc (nat (cap - int (length rows) - 1))"
      by simp
    with False Cons.IH [of "rows @ [\<lparr>user_id = None, name = nm, joined_at = now, is_vip = True\<rparr>]"]
    show ?thesis
      by (simp add: algebra_simps)
  qed
qed

lemma vip_rows_of_eq:
  "vip_rows_of names now cap =
     map (\<lambda>nm. \<lparr>user_id = None, name = nm, joined_at = now, is_vip = True\<rparr>)
       (take (nat cap) names)"
  by (simp add: vip_rows_of_def vip_rows_loop_eq)

lemma length_slice_to: "length (slice_to k xs) \<le> length xs"
  by (auto simp: slice_to_def)

lemma set_slice_to: "set (slice_to k xs) \<subseteq> set xs"
  by (auto simp: slice_to_def dest: in_set_takeD)

lemma slice_to_whole: "int (length xs) \<le> k \<Longrightarrow> slice_to k xs = xs"
  by (simp add: slice_to_def)

lemma length_remove_at: "k < length xs \<Longrightarrow> Suc (length (remove_at k xs)) = length xs"
  by (simp add: remove_at_def)

section \<open>Capacity bounds\<close>

lemma within_capacity_default: "within_capacity (default_event now)"
  by (simp add: within_capacity_def default_event_def DEFAULT_CAPACITY_def
      WAITLIST_CAPACITY_def)

lemma within_capacity_newgame:
  "newgame_of names int_py fmt_title now True args cd = (Some ev', r)
   \<Longrightarrow> within_capacity ev'"
proof -
  assume a: "newgame_of names int_py fmt_title now True args cd = (Some ev', r)"
  have b: "int (length (slice_to c (vip_rows_of names now (max 1 c)))) \<le> max 1 c" for c
  proof -
    have "length (slice_to c (vip_rows_of names now (max 1 c)))
        \<le> length (vip_rows_of names now (max 1 c))"
      by (rule length_slice_to)
    also have "\<dots> \<le> nat (max 1 c)"
      by (simp add: vip_rows_of_eq)
    finally show ?thesis by simp
  qed
  from a b show ?thesis
    by (auto simp: newgame_of_def Let_def within_capacity_def WAITLIST_CAPACITY_def
        split: if_splits option.splits prod.splits)
qed

lemma within_capacity_join:
  "within_capacity (ensure_event now cd) \<Longrightarrow> handle_join now uid nm cd = (Some ev', r)
   \<Longrightarrow> within_capacity ev'"
  by (auto simp: handle_join_def Let_def within_capacity_def split: if_splits)

lemma within_capacity_leave:
  assumes "within_capacity (ensure_event now cd)"
    and "handle_leave now uid cd = (Some ev', r)"
  shows "within_capacity ev'"
proof (cases "find_user (players (ensure_event now cd)) uid = - 1")
  case True
  note p = this
  show ?thesis
  proof (cases "find_user (waitlist (ensure_event now cd)) uid = - 1")
    case True
    with p assms show ?thesis
      by (auto simp: handle_leave_def Let_def)
  next
    case False
    then have "Some uid \<in> user_id ` set (waitlist (ensure_event now cd))"
      by (simp add: find_user_minus_one_iff)
    from find_user_present [OF this]
    obtain k where k: "k < length (waitlist (ensure_event now cd))"
        "find_user (waitlist (ensure_event now cd)) uid = int k"
      by blast
    from length_remove_at [OF k(1)] p k assms show ?thesis
      by (auto simp: handle_leave_def Let_def within_capacity_def)
  qed
next
  case False
  then have "Some uid \<in> user_id ` set (players (ensure_event now cd))"
    by (simp add: find_user_minus_one_iff)
  from find_user_present [OF this]
  obtain k where k: "k < length (players (ensure_event now cd))"
      "find_user (players (ensure_event now cd)) uid = int k"
    by blast
  from length_remove_at [OF k(1)] k assms show ?thesis
    by (cases "waitlist (ensure_event now cd)")
       (auto simp: handle_leave_def Let_def within_capacity_def)
qed

lemma within_capacity_step:
  assumes "\<forall>ev. cd = Some ev \<longrightarrow> within_capacity ev"
    and "step names int_py fmt_title cd tr = Some ev'"
  shows "within_capacity ev'"
proof -
  obtain now req where tr: "tr = (now, req)" by (cases tr)
  from assms(2) have s: "step names int_py fmt_title cd (now, req) = Some ev'"
    by (simp add: tr)
  from assms(1) have e: "within_capacity (ensure_event now' cd)" for now'
    by (cases cd) (simp_all add: ensure_event_def within_capacity_default)
  show ?thesis
  proof (cases req)
    case Req_start
    with s e [of now] show ?thesis by (auto simp: start_def)
  next
    case (Req_newgame admin args)
    show ?thesis
    proof (cases admin)
      case True
      with Req_newgame s
      have "newgame_of names int_py fmt_title now True args cd
          = (Some ev', snd (newgame_of names int_py fmt_title now True args cd))"
        by (simp add: prod_eq_iff)
      then show ?thesis by (rule within_capacity_newgame)
    next
      case False
      with Req_newgame s assms(1) show ?thesis by (simp add: newgame_of_def)
    qed
  next
    case (Req_join uid nm)
    with s
    have "handle_join now uid nm cd = (Some ev', snd (handle_join now uid nm cd))"
      by (simp add: prod_eq_iff)
    with e [of now] show ?thesis by (rule within_capacity_join)
  next
    case (Req_leave uid)
    with s
    have "handle_leave now uid cd = (Some ev', snd (handle_leave now uid cd))"
      by (simp add: prod_eq_iff)
    with e [of now] show ?thesis by (rule within_capacity_leave)
  next
    case Req_list
    with s e [of now] show ?thesis by (auto simp: list_cmd_def)
  next
    case (Req_lock admin)
    with s assms(1) e [of now] show ?thesis
      by (cases admin) (auto simp: lock_cmd_def within_capacity_def)
  next
    case (Req_unlock admin)
    with s assms(1) e [of now] show ?thesis
      by (cases admin) (auto simp: unlock_cmd_def within_capacity_def)
  next
    case (Req_reset admin)
    with s assms(1) show ?thesis
      by (cases admin) (auto simp: reset_cmd_def ensure_event_def within_capacity_default)
  qed
qed

lemma within_capacity_run:
  "run names int_py fmt_title reqs = Some ev \<Longrightarrow> within_capacity ev"
proof (induction reqs arbitrary: ev rule: rev_induct)
  case Nil
  then show ?case by (simp add: run_def)
next
  case (snoc tr reqs)
  from snoc.prems
  have "step names int_py fmt_title (run names int_py fmt_title reqs) tr = Some ev"
    by (simp add: run_def)
  moreover from snoc.IH
  have "\<forall>e. run names int_py fmt_title reqs = Some e \<longrightarrow> within_capacity e"
    by blast
  ultimately show ?case by (rule within_capacity_step [rotated])
qed

text \<open>
  C3. In every state that a chat reaches from the empty \<open>chat_data\<close> by any sequence of
  requests (start, newgame, join, leave, list, lock, unlock, reset, by admins or not, at
  any clock readings), the event has \<open>len(players) \<le> capacity\<close> and
  \<open>len(waitlist) \<le> WAITLIST_CAPACITY\<close>. The leave step is the one modelled from the spec.
\<close>

theorem reachable_within_capacity:
  "int (length (players (ensure_event now (run names int_py fmt_title reqs))))
     \<le> capacity (ensure_event now (run names int_py fmt_title reqs))
   \<and> int (length (waitlist (ensure_event now (run names int_py fmt_title reqs))))
     \<le> WAITLIST_CAPACITY"
proof (cases "run names int_py fmt_title reqs")
  case None
  with within_capacity_default [of now] show ?thesis
    by (simp add: ensure_event_def within_capacity_def)
next
  case (Some ev)
  with within_capacity_run [OF Some] show ?thesis
    by (simp add: ensure_event_def within_capacity_def)
qed

section \<open>Identifiers are not duplicated\<close>

lemma idents_append: "idents (xs @ ys) = idents xs @ idents ys"
  by (induction xs) (simp_all split: option.splits)

lemma set_idents: "u \<in> set (idents xs) \<longleftrightarrow> Some u \<in> user_id ` set xs"
  by (induction xs) (auto split: option.splits)

lemma idents_no_ids: "\<forall>r\<in>set xs. user_id r = None \<Longrightarrow> idents xs = []"
  by (induction xs) simp_all

lemma distinct_idents_remove_at:
  assumes "distinct (idents (a @ xs @ b))"
  shows "distinct (idents (a @ remove_at k xs @ b))"
proof (cases "k < length xs")
  case True
  then have "xs = take k xs @ [xs ! k] @ drop (Suc k) xs"
    by (simp add: id_take_nth_drop)
  then have "idents xs = idents (take k xs) @ idents [xs ! k] @ idents (drop (Suc k) xs)"
    by (metis idents_append)
  with assms show ?thesis
    by (auto simp: idents_append remove_at_def)
next
  case False
  then have "remove_at k xs = xs" by (simp add: remove_at_def)
  with assms show ?thesis by simp
qed

lemma distinct_default: "distinct (idents (players (default_event now) @ waitlist (default_event now)))"
  by (simp add: default_event_def)

lemma newgame_of_admin_shape:
  "\<exists>c t. newgame_of names int_py fmt_title now True args cd =
     (Some \<lparr>title = Some t, capacity = max 1 c, locked = False,
            players = slice_to c (vip_rows_of names now (max 1 c)), waitlist = [],
            created_at = now\<rparr>,
      Created_new_game t c)"
proof (cases "args = []")
  case True
  then show ?thesis by (simp add: newgame_of_def Let_def)
next
  case False
  then show ?thesis
    by (cases "int_py (last args)") (simp_all add: newgame_of_def Let_def)
qed

lemma idents_seeded: "idents (slice_to c (vip_rows_of names now m)) = []"
proof (rule idents_no_ids, rule ballI)
  fix r assume "r \<in> set (slice_to c (vip_rows_of names now m))"
  with set_slice_to [of c "vip_rows_of names now m"]
  have "r \<in> set (vip_rows_of names now m)" by (rule subsetD)
  then obtain nm where "r = \<lparr>user_id = None, name = nm, joined_at = now, is_vip = True\<rparr>"
    unfolding vip_rows_of_eq by (auto simp: image_iff)
  then show "user_id r = None" by simp
qed

lemma distinct_newgame:
  assumes "newgame_of names int_py fmt_title now True args cd = (Some ev', r)"
  shows "distinct (idents (players ev' @ waitlist ev'))"
proof -
  from newgame_of_admin_shape [of names int_py fmt_title now args cd] assms
  obtain c where "players ev' = slice_to c (vip_rows_of names now (max 1 c))"
      "waitlist ev' = []"
    by force
  then show ?thesis by (simp add: idents_seeded)
qed

lemma distinct_join:
  assumes "distinct (idents (players (ensure_event now cd) @ waitlist (ensure_event now cd)))"
    and "handle_join now uid nm cd = (Some ev', r)"
  shows "distinct (idents (players ev' @ waitlist ev'))"
proof (cases "find_user (players (ensure_event now cd)) uid = - 1
    \<and> find_user (waitlist (ensure_event now cd)) uid = - 1")
  case True
  then have "uid \<notin> set (idents (players (ensure_event now cd)))"
      "uid \<notin> set (idents (waitlist (ensure_event now cd)))"
    by (simp_all add: find_user_minus_one_iff set_idents)
  with assms True show ?thesis
    by (auto simp: handle_join_def Let_def idents_append split: if_splits)
next
  case False
  with assms show ?thesis
    by (auto simp: handle_join_def Let_def split: if_splits)
qed

lemma distinct_leave:
  assumes "distinct (idents (players (ensure_event now cd) @ waitlist (ensure_event now cd)))"
    and "handle_leave now uid cd = (Some ev', r)"
  shows "distinct (idents (players ev' @ waitlist ev'))"
proof -
  let ?ev = "ensure_event now cd"
  from assms(1) have p: "distinct (idents (remove_at k (players ?ev) @ waitlist ?ev))" for k
    using distinct_idents_remove_at [of "[]" "players ?ev" "waitlist ?ev" k] by simp
  from assms(1) have w: "distinct (idents (players ?ev @ remove_at k (waitlist ?ev)))" for k
    using distinct_idents_remove_at [of "players ?ev" "waitlist ?ev" "[]" k] by simp
  show ?thesis
  proof (cases "find_user (players ?ev) uid = - 1")
    case True
    with assms w show ?thesis
      by (auto simp: handle_leave_def Let_def split: if_splits)
  next
    case False
    with assms(2) p [of "nat (find_user (players ?ev) uid)"] show ?thesis
      by (cases "waitlist ?ev") (auto simp: handle_leave_def Let_def)
  qed
qed

lemma distinct_step:
  assumes "\<forall>ev. cd = Some ev \<longrightarrow> distinct (idents (players ev @ waitlist ev))"
    and "step names int_py fmt_title cd tr = Some ev'"
  shows "distinct (idents (players ev' @ waitlist ev'))"
proof -
  obtain now req where tr: "tr = (now, req)" by (cases tr)
  from assms(2) have s: "step names int_py fmt_title cd (now, req) = Some ev'"
    by (simp add: tr)
  from assms(1)
  have e: "distinct (idents (players (ensure_event now' cd) @ waitlist (ensure_event now' cd)))"
    for now'
    by (cases cd) (simp_all add: ensure_event_def distinct_default)
  show ?thesis
  proof (cases req)
    case Req_start
    with s e [of now] show ?thesis by (auto simp: start_def)
  next
    case (Req_newgame admin args)
    show ?thesis
    proof (cases admin)
      case True
      with Req_newgame s
      have "newgame_of names int_py fmt_title now True args cd
          = (Some ev', snd (newgame_of names int_py fmt_title now True args cd))"
        by (simp add: prod_eq_iff)
      then show ?thesis by (rule distinct_newgame)
    next
      case False
      with Req_newgame s assms(1) show ?thesis by (simp add: newgame_of_def)
    qed
  next
    case (Req_join uid nm)
    with s
    have "handle_join now uid nm cd = (Some ev', snd (handle_join now uid nm cd))"
      by (simp add: prod_eq_iff)
    with e [of now] show ?thesis by (rule distinct_join)
  next
    case (Req_leave uid)
    with s
    have "handle_leave now uid cd = (Some ev', snd (handle_leave now uid cd))"
      by (simp add: prod_eq_iff)
    with e [of now] show ?thesis by (rule distinct_leave)
  next
    case Req_list
    with s e [of now] show ?thesis by (auto simp: list_cmd_def)
  next
    case (Req_lock admin)
    with s assms(1) e [of now] show ?thesis
      by (cases admin) (auto simp: lock_cmd_def)
  next
    case (Req_unlock admin)
    with s assms(1) e [of now] show ?thesis
      by (cases admin) (auto simp: unlock_cmd_def)
  next
    case (Req_reset admin)
    with s assms(1) show ?thesis
      by (cases admin) (auto simp: reset_cmd_def ensure_event_def distinct_default)
  qed
qed

lemma distinct_run:
  "run names int_py fmt_title reqs = Some ev \<Longrightarrow> distinct (idents (players ev @ waitlist ev))"
proof (induction reqs arbitrary: ev rule: rev_induct)
  case Nil
  then show ?case by (simp add: run_def)
next
  case (snoc tr reqs)
  from snoc.prems
  have "step names int_py fmt_title (run names int_py fmt_title reqs) tr = Some ev"
    by (simp add: run_def)
  moreover from snoc.IH
  have "\<forall>e. run names int_py fmt_title reqs = Some e
      \<longrightarrow> distinct (idents (players e @ waitlist e))"
    by blast
  ultimately show ?case by (rule distinct_step [rotated])
qed

text \<open>
  C4. In every state that a chat reaches from the empty \<open>chat_data\<close> by any sequence of
  requests, the identifiers of \<open>players\<close> followed by those of \<open>waitlist\<close> form a list
  without repetition: no identifier occurs twice in \<open>players\<close>, none twice in \<open>waitlist\<close>,
  and none in both. An identifier is a \<open>user_id\<close> that is not \<open>None\<close>: the seeded VIP
  rows carry \<open>None\<close>, that is, no identifier. The leave step is the one modelled from
  the spec.
\<close>

theorem reachable_no_duplicate_identifier:
  "distinct (idents (players (ensure_event now (run names int_py fmt_title reqs))
                     @ waitlist (ensure_event now (run names int_py fmt_title reqs))))
   \<and> distinct (idents (players (ensure_event now (run names int_py fmt_title reqs))))
   \<and> distinct (idents (waitlist (ensure_event now (run names int_py fmt_title reqs))))
   \<and> set (idents (players (ensure_event now (run names int_py fmt_title reqs))))
       \<inter> set (idents (waitlist (ensure_event now (run names int_py fmt_title reqs)))) = {}"
proof -
  have "distinct (idents (players (ensure_event now (run names int_py fmt_title reqs))
                     @ waitlist (ensure_event now (run names int_py fmt_title reqs))))"
  proof (cases "run names int_py fmt_title reqs")
    case None
    with distinct_default [of now] show ?thesis by (simp add: ensure_event_def)
  next
    case (Some ev)
    with distinct_run [OF Some] show ?thesis by (simp add: ensure_event_def)
  qed
  then show ?thesis by (simp add: idents_append)
qed

section \<open>The capacity a new game gets\<close>

text \<open>
  C5, as stated, fails: an admin's \<open>/newgame 0\<close> in a chat without event stores capacity
  1, not the default 15; and \<open>/newgame\<close> without arguments in a chat whose event has
  capacity 10 stores capacity 10, not the default 15.
\<close>

theorem newgame_capacity_not_default_counterexample:
  "capacity (ensure_event ''t2'' (fst (newgame int_py_ex fmt_title_ex ''t1'' True [''0''] None)))
     = 1
   \<and> capacity (ensure_event ''t2''
        (fst (newgame int_py_ex fmt_title_ex ''t1'' True [] (roster_of 10 False [] []))))
     = 10
   \<and> capacity (ensure_event ''t2''
        (fst (newgame int_py_ex fmt_title_ex ''t1'' True [''0''] None)))
     \<noteq> DEFAULT_CAPACITY
   \<and> capacity (ensure_event ''t2''
        (fst (newgame int_py_ex fmt_title_ex ''t1'' True [] (roster_of 10 False [] []))))
     \<noteq> DEFAULT_CAPACITY"
  by (simp add: newgame_def newgame_of_def Let_def ensure_event_def default_event_def
      int_py_ex_def roster_of_def DEFAULT_CAPACITY_def)

text \<open>
  C5, amended. An admin's \<open>newgame\<close> is never refused: it always stores a new event and
  answers "Created new game". The capacity \<open>c\<close> it works with is the last argument when
  that parses as an integer, and otherwise (no arguments, or a last argument that is not
  a number) the capacity of the event it replaces, which is \<open>DEFAULT_CAPACITY\<close> when the
  chat had no event. The stored capacity is \<open>max(1, c)\<close>: a non-positive override is
  clamped to 1.
\<close>

theorem newgame_capacity_clamped:
  "\<exists>ev' t c. newgame int_py fmt_title now True args cd = (Some ev', Created_new_game t c)
     \<and> c = (if args = [] then capacity (ensure_event now cd)
            else case int_py (last args) of
                   None \<Rightarrow> capacity (ensure_event now cd)
                 | Some m \<Rightarrow> m)
     \<and> capacity ev' = max 1 c
     \<and> 1 \<le> capacity ev'
     \<and> capacity (ensure_event now None) = DEFAULT_CAPACITY"
proof (cases "args = []")
  case True
  then show ?thesis
    by (simp add: newgame_def newgame_of_def Let_def ensure_event_def default_event_def)
next
  case False
  then show ?thesis
    by (cases "int_py (last args)")
       (simp_all add: newgame_def newgame_of_def Let_def ensure_event_def default_event_def)
qed

section \<open>Seeding the VIP rows\<close>

lemma newgame_seeds_when_capacity_positive:
  assumes "newgame_of names int_py fmt_title now True args cd = (Some ev', Created_new_game t c)"
    and "1 \<le> c"
  shows "players ev' =
           map (\<lambda>nm. \<lparr>user_id = None, name = nm, joined_at = now, is_vip = True\<rparr>)
             (take (nat c) names)
         \<and> length (players ev') = min (nat c) (length names)
         \<and> capacity ev' = c \<and> waitlist ev' = [] \<and> locked ev' = False"
proof -
  from newgame_of_admin_shape [of names int_py fmt_title now args cd] assms(1)
  have p: "players ev' = slice_to c (vip_rows_of names now (max 1 c))"
    and r: "capacity ev' = max 1 c" "waitlist ev' = []" "locked ev' = False"
    by force+
  from assms(2) have "int (length (vip_rows_of names now (max 1 c))) \<le> c"
    by (simp add: vip_rows_of_eq)
  then have "slice_to c (vip_rows_of names now (max 1 c)) = vip_rows_of names now (max 1 c)"
    by (rule slice_to_whole)
  with p assms(2) have "players ev' =
      map (\<lambda>nm. \<lparr>user_id = None, name = nm, joined_at = now, is_vip = True\<rparr>)
        (take (nat c) names)"
    by (simp add: vip_rows_of_eq max_def)
  with r assms(2) show ?thesis by (simp add: min.commute)
qed

lemma newgame_scenario_capacity_3_two_names:
  "fst (newgame_of [''Vip1'', ''Vip2''] int_py_ex fmt_title_ex ''t1'' True [''3''] None) =
     Some \<lparr>title = Some ''Next Game'', capacity = 3, locked = False,
           players = [\<lparr>user_id = None, name = ''Vip1'', joined_at = ''t1'', is_vip = True\<rparr>,
                      \<lparr>user_id = None, name = ''Vip2'', joined_at = ''t1'', is_vip = True\<rparr>],
           waitlist = [], created_at = ''t1''\<rparr>"
  by (simp add: newgame_of_def Let_def ensure_event_def default_event_def int_py_ex_def
      vip_rows_of_def slice_to_def)

text \<open>
  C6 at a non-positive capacity: an admin's \<open>/newgame 0\<close> (and \<open>/newgame -1\<close>) in a chat
  without event stores capacity 1 and no player at all, although \<open>vip_rows\<close> returned
  the one row that fits capacity 1: \<open>seeded[:capacity]\<close> slices with the capacity before
  \<open>max(1, capacity)\<close>.
\<close>

theorem newgame_nonpositive_capacity_drops_seeded:
  "fst (newgame int_py_ex fmt_title_ex ''t1'' True [''0''] None) =
     Some \<lparr>title = Some ''Next Game'', capacity = 1, locked = False,
           players = [], waitlist = [], created_at = ''t1''\<rparr>
   \<and> fst (newgame int_py_ex fmt_title_ex ''t1'' True [''-1''] None) =
     Some \<lparr>title = Some ''Next Game'', capacity = 1, locked = False,
           players = [], waitlist = [], created_at = ''t1''\<rparr>
   \<and> vip_rows ''t1'' (max 1 0) =
       [\<lparr>user_id = None, name = ''Albert'', joined_at = ''t1'', is_vip = True\<rparr>]"
  by (simp add: newgame_def newgame_of_def Let_def ensure_event_def default_event_def
      int_py_ex_def vip_rows_def vip_rows_of_def VIP_NAMES_def slice_to_def)

section \<open>Seeded rows and the duplicate checks\<close>

text \<open>
  C10. The rows \<open>vip_rows\<close> returns carry no identifier, so \<open>find_user\<close> never finds an
  actor among them, and seeded rows anywhere in a list do not change whether \<open>find_user\<close>
  finds the actor. Hence a join right after an admin's \<open>newgame\<close> is never refused as
  already confirmed or already waitlisted: the actor gets a new row of their own with
  \<open>is_vip = False\<close>, in \<open>players\<close> if a slot is free and else as first of the waitlist,
  whatever their display name. In particular, after \<open>/newgame\<close> in a fresh chat, the actor
  7 named "Albert" becomes player 3, next to the seeded row named "Albert".
\<close>

theorem seeded_rows_never_block_join:
  "map user_id (vip_rows_of names now cap)
     = replicate (length (vip_rows_of names now cap)) None
   \<and> find_user (vip_rows_of names now cap) uid = - 1
   \<and> (find_user (xs @ vip_rows_of names now cap @ ys) uid = - 1
        \<longleftrightarrow> find_user (xs @ ys) uid = - 1)
   \<and> handle_join now' uid nm (fst (newgame_of names int_py fmt_title now True args cd)) =
       (if int (length (players (ensure_event now'
               (fst (newgame_of names int_py fmt_title now True args cd)))))
           < capacity (ensure_event now'
               (fst (newgame_of names int_py fmt_title now True args cd)))
        then
          (Some ((ensure_event now' (fst (newgame_of names int_py fmt_title now True args cd)))
             \<lparr>players :=
                players (ensure_event now'
                  (fst (newgame_of names int_py fmt_title now True args cd)))
                @ [\<lparr>user_id = Some uid, name = nm, joined_at = now', is_vip = False\<rparr>]\<rparr>),
           Joined (int (length (players (ensure_event now'
               (fst (newgame_of names int_py fmt_title now True args cd))))) + 1))
        else
          (Some ((ensure_event now' (fst (newgame_of names int_py fmt_title now True args cd)))
             \<lparr>waitlist :=
                [\<lparr>user_id = Some uid, name = nm, joined_at = now', is_vip = False\<rparr>]\<rparr>),
           List_full_waitlisted 1))
   \<and> handle_join ''t2'' 7 ''Albert''
        (fst (newgame int_py_ex fmt_title_ex ''t1'' True [] None)) =
       (Some \<lparr>title = Some ''Next Game'', capacity = 15, locked = False,
           players = [\<lparr>user_id = None, name = ''Albert'', joined_at = ''t1'', is_vip = True\<rparr>,
                      \<lparr>user_id = None, name = ''Ah Soon'', joined_at = ''t1'', is_vip = True\<rparr>,
                      \<lparr>user_id = Some 7, name = ''Albert'', joined_at = ''t2'',
                       is_vip = False\<rparr>],
           waitlist = [], created_at = ''t1''\<rparr>,
        Joined 3)"
proof (intro conjI)
  show "map user_id (vip_rows_of names now cap)
     = replicate (length (vip_rows_of names now cap)) None"
    by (simp add: vip_rows_of_eq comp_def map_replicate_const)
next
  have none: "Some uid \<notin> user_id ` set (vip_rows_of names now cap)"
    by (auto simp: vip_rows_of_eq)
  then show "find_user (vip_rows_of names now cap) uid = - 1"
    by (rule find_user_absent)
  from none show "find_user (xs @ vip_rows_of names now cap @ ys) uid = - 1
        \<longleftrightarrow> find_user (xs @ ys) uid = - 1"
    by (simp add: find_user_minus_one_iff image_Un)
next
  let ?cd = "fst (newgame_of names int_py fmt_title now True args cd)"
  from newgame_of_admin_shape [of names int_py fmt_title now args cd]
  obtain c t where cd': "?cd =
     Some \<lparr>title = Some t, capacity = max 1 c, locked = False,
            players = slice_to c (vip_rows_of names now (max 1 c)), waitlist = [],
            created_at = now\<rparr>"
    by force
  have "idents (slice_to c (vip_rows_of names now (max 1 c))) = []"
    by (rule idents_seeded)
  then have "Some uid \<notin> user_id ` set (slice_to c (vip_rows_of names now (max 1 c)))"
    by (metis empty_iff list.set(1) set_idents)
  then have f: "find_user (slice_to c (vip_rows_of names now (max 1 c))) uid = - 1"
    by (rule find_user_absent)
  have g: "find_user [] uid = - 1" by (simp add: find_user_def)
  show "handle_join now' uid nm ?cd =
       (if int (length (players (ensure_event now' ?cd))) < capacity (ensure_event now' ?cd)
        then
          (Some ((ensure_event now' ?cd)
             \<lparr>players := players (ensure_event now' ?cd)
                @ [\<lparr>user_id = Some uid, name = nm, joined_at = now', is_vip = False\<rparr>]\<rparr>),
           Joined (int (length (players (ensure_event now' ?cd))) + 1))
        else
          (Some ((ensure_event now' ?cd)
             \<lparr>waitlist :=
                [\<lparr>user_id = Some uid, name = nm, joined_at = now', is_vip = False\<rparr>]\<rparr>),
           List_full_waitlisted 1))"
    unfolding cd'
    by (simp add: handle_join_def Let_def ensure_event_def f g WAITLIST_CAPACITY_def)
next
  show "handle_join ''t2'' 7 ''Albert''
        (fst (newgame int_py_ex fmt_title_ex ''t1'' True [] None)) =
       (Some \<lparr>title = Some ''Next Game'', capacity = 15, locked = False,
           players = [\<lparr>user_id = None, name = ''Albert'', joined_at = ''t1'', is_vip = True\<rparr>,
                      \<lparr>user_id = None, name = ''Ah Soon'', joined_at = ''t1'', is_vip = True\<rparr>,
                      \<lparr>user_id = Some 7, name = ''Albert'', joined_at = ''t2'',
                       is_vip = False\<rparr>],
           waitlist = [], created_at = ''t1''\<rparr>,
        Joined 3)"
    by (simp add: newgame_def newgame_of_def Let_def ensure_event_def default_event_def
        vip_rows_of_def VIP_NAMES_def slice_to_def DEFAULT_CAPACITY_def handle_join_def
        find_user_def)
qed

end
